theory Spec2Isabelle
  imports Complex_Main
begin

section \<open>Data model\<close>

text \<open>
  The timing section of \<^verbatim>\<open>config.js\<close>. The source fixes
  \<^verbatim>\<open>minBufferClips: 2\<close> and \<^verbatim>\<open>maxBufferClips: 5\<close>; both are
  clip counts and are kept as parameters here.
\<close>

record config =
  minBufferClips :: nat
  maxBufferClips :: nat

definition config_timing :: config where
  "config_timing = \<lparr>minBufferClips = 2, maxBufferClips = 5\<rparr>"

text \<open>
  An audio clip as \<^verbatim>\<open>tts.synthesize\<close> returns it. The type \<open>'n\<close> stands for
  JavaScript numbers; durations are only ever added, so nothing but \<open>0\<close> and \<open>+\<close> is
  asked of it. The blob is an opaque handle. The field \<^verbatim>\<open>text\<close> is named
  \<open>text_clip\<close>. The fields \<^verbatim>\<open>url\<close>, \<^verbatim>\<open>latency\<close> and
  \<^verbatim>\<open>timestamp\<close> are never read by the code below.
\<close>

record 'n clip =
  text_clip :: string
  duration :: 'n
  blob :: nat

text \<open>The object \<^verbatim>\<open>getStatus()\<close> returns.\<close>

record 'n status =
  queuedClips :: nat
  totalBufferedSeconds :: 'n
  isPlaying_status :: bool
  isPaused_status :: bool
  currentlyPlaying_status :: "(string \<times> 'n) option"

text \<open>
  The five optional callbacks of \<^verbatim>\<open>AudioBufferManager\<close>. An operation of the
  buffer returns, next to the new state, the list of callback invocations it made, in
  the order it made them (an invocation \<^verbatim>\<open>this.onX?.(...)\<close> reaches a listener
  only if one is set).
\<close>

datatype 'n hook =
    OnClipStart "'n clip"
  | OnClipEnd "'n clip"
  | OnBufferLow
  | OnBufferUpdate "'n status"
  | OnError

text \<open>
  The errors of the buffer: \<^verbatim>\<open>addToQueue\<close> before \<^verbatim>\<open>initialize\<close>, an audio
  context the browser refuses, a payload that does not decode. The errors of the four
  pipeline stages are plain \<^verbatim>\<open>Error\<close> objects that \<^verbatim>\<open>generateClip\<close> catches
  without looking at them; they appear below as rejected promises.
\<close>

datatype js_error =
    NotInitialized
  | AudioContextError
  | DecodeError

section \<open>AudioBufferManager\<close>

text \<open>
  The fields of the class. \<^verbatim>\<open>currentSource\<close> holds the clip whose buffer the
  source node plays and whether \<^verbatim>\<open>source.start(0)\<close> went through (a node whose
  start threw never fires \<^verbatim>\<open>onended\<close>). \<^verbatim>\<open>gainNode\<close> holds the gain value.
  \<open>timeouts\<close> is not a field of the class: it counts the pending
  \<^verbatim>\<open>setTimeout(() => this.playNext(), 500)\<close> callbacks.
\<close>

record 'n abm =
  queue :: "'n clip list"
  currentlyPlaying :: "'n clip option"
  currentSource :: "('n clip \<times> bool) option"
  isPlaying :: bool
  isPaused :: bool
  isInitialized :: bool
  gainNode :: "'n option"
  timeouts :: nat

definition new_AudioBufferManager :: "'n abm" where
  "new_AudioBufferManager =
     \<lparr>queue = [], currentlyPlaying = None, currentSource = None, isPlaying = False,
      isPaused = False, isInitialized = False, gainNode = None, timeouts = 0\<rparr>"

definition getTotalBufferedSeconds :: "('n::{zero,plus}) abm \<Rightarrow> 'n" where
  "getTotalBufferedSeconds s = foldl (\<lambda>total c. total + duration c) 0 (queue s)"

definition getStatus :: "('n::{zero,plus}) abm \<Rightarrow> 'n status" where
  "getStatus s =
     \<lparr>queuedClips = length (queue s),
      totalBufferedSeconds = getTotalBufferedSeconds s,
      isPlaying_status = isPlaying s,
      isPaused_status = isPaused s,
      currentlyPlaying_status =
        (case currentlyPlaying s of None \<Rightarrow> None | Some c \<Rightarrow> Some (text_clip c, duration c))\<rparr>"

definition notifyBufferUpdate :: "('n::{zero,plus}) abm \<Rightarrow> 'n hook list" where
  "notifyBufferUpdate s = [OnBufferUpdate (getStatus s)]"


text \<open>
  \<^verbatim>\<open>initialize()\<close>. The argument says whether the browser lets the audio context
  be created; resuming a suspended context is taken to succeed. A fresh gain node has
  gain \<open>1\<close>.
\<close>

definition initialize :: "bool \<Rightarrow> ('n::one) abm \<Rightarrow> js_error + 'n abm" where
  "initialize ctx_ok s =
     (if isInitialized s then Inr s
      else if ctx_ok then Inr (s\<lparr>gainNode := Some 1, isInitialized := True\<rparr>)
      else Inl AudioContextError)"

text \<open>
  The trimming loop of \<^verbatim>\<open>addToQueue\<close>:
  \<^verbatim>\<open>while (this.queue.length > config.timing.maxBufferClips) this.queue.shift()\<close>.
\<close>

function trim :: "nat \<Rightarrow> 'a list \<Rightarrow> 'a list" where
  "trim m q = (if m < length q then trim m (tl q) else q)"
  by pat_completeness auto
termination
  by (relation "measure (\<lambda>(m, q). length q)") auto

text \<open>
  \<^verbatim>\<open>addToQueue(clip)\<close> has three parts: the guard (which throws), the two awaited
  decoding calls (which may reject), and the synchronous block that pushes the clip,
  notifies the listener and then trims. Nothing of the buffer is read or written while
  the decoding is awaited, so the parts are given separately and \<open>addToQueue\<close> is their
  sequence. \<open>decode_ok\<close> says whether
  \<^verbatim>\<open>clip.blob.arrayBuffer()\<close> and \<^verbatim>\<open>decodeAudioData\<close> both resolve.
  The two fields the queue entry adds to the clip (\<^verbatim>\<open>audioBuffer\<close>,
  \<^verbatim>\<open>addedAt\<close>) decide nothing and are left out.
\<close>

definition addToQueue_guard :: "'n abm \<Rightarrow> js_error + unit" where
  "addToQueue_guard s = (if \<not> isInitialized s then Inl NotInitialized else Inr ())"

definition addToQueue_push :: "config \<Rightarrow> ('n::{zero,plus}) clip \<Rightarrow> 'n abm \<Rightarrow> 'n abm \<times> 'n hook list" where
  "addToQueue_push cfg c s =
     (let s1 = s\<lparr>queue := queue s @ [c]\<rparr>;
          notified = notifyBufferUpdate s1;
          s2 = s1\<lparr>queue := trim (maxBufferClips cfg) (queue s1)\<rparr>
      in (s2, notified))"

definition addToQueue ::
  "config \<Rightarrow> bool \<Rightarrow> ('n::{zero,plus}) clip \<Rightarrow> 'n abm \<Rightarrow> js_error + ('n abm \<times> 'n hook list)" where
  "addToQueue cfg decode_ok c s =
     (case addToQueue_guard s of
        Inl e \<Rightarrow> Inl e
      | Inr _ \<Rightarrow> if decode_ok then Inr (addToQueue_push cfg c s) else Inl DecodeError)"

text \<open>
  \<^verbatim>\<open>playNext()\<close>. It is declared \<^verbatim>\<open>async\<close> but awaits nothing, so a call
  runs to its end. \<open>starts c\<close> says whether \<^verbatim>\<open>source.start(0)\<close> goes through for
  the node made for clip \<open>c\<close>; when it throws, the \<^verbatim>\<open>catch\<close> block reports the
  error and calls \<^verbatim>\<open>playNext()\<close> again. The callbacks the application registers
  never touch the buffer, so their invocations are collected in order.
\<close>

function playNext ::
  "config \<Rightarrow> ('n clip \<Rightarrow> bool) \<Rightarrow> ('n::{zero,plus}) abm \<Rightarrow> 'n abm \<times> 'n hook list" where
  "playNext cfg starts s =
     (if \<not> isPlaying s \<or> isPaused s then (s, [])
      else
        let low = (if length (queue s) \<le> minBufferClips cfg then [OnBufferLow] else [])
        in (case queue s of
              [] \<Rightarrow> (s\<lparr>timeouts := Suc (timeouts s)\<rparr>, low)
            | c # rest \<Rightarrow>
                let s1 = s\<lparr>queue := rest, currentlyPlaying := Some c\<rparr>;
                    started = low @ [OnClipStart c] @ notifyBufferUpdate s1
                in if starts c then (s1\<lparr>currentSource := Some (c, True)\<rparr>, started)
                   else
                     let r = playNext cfg starts (s1\<lparr>currentSource := Some (c, False)\<rparr>)
                     in (fst r, started @ [OnError] @ snd r)))"
  by pat_completeness auto
termination
  by (relation "measure (\<lambda>(cfg, starts, s). length (queue s))") auto

text \<open>
  The \<^verbatim>\<open>source.onended\<close> handler that \<^verbatim>\<open>playNext\<close> installs; \<open>c\<close> is the
  clip its closure holds.
\<close>

definition onended ::
  "config \<Rightarrow> ('n clip \<Rightarrow> bool) \<Rightarrow> 'n clip \<Rightarrow> ('n::{zero,plus}) abm \<Rightarrow> 'n abm \<times> 'n hook list" where
  "onended cfg starts c s =
     (let s1 = s\<lparr>currentSource := None, currentlyPlaying := None\<rparr>
      in if isPlaying s1 \<and> \<not> isPaused s1
         then (let r = playNext cfg starts s1 in (fst r, OnClipEnd c # snd r))
         else (s1, [OnClipEnd c]))"

text \<open>
  The public operations. \<^verbatim>\<open>play\<close> can throw (through \<^verbatim>\<open>initialize\<close>,
  which it awaits; the call is taken as one step, and its audio context as not
  suspended);
  \<^verbatim>\<open>pause\<close>, \<^verbatim>\<open>resume\<close>, \<^verbatim>\<open>stop\<close> and \<^verbatim>\<open>setVolume\<close>
  contain no \<^verbatim>\<open>throw\<close> and swallow the one call that could
  (\<^verbatim>\<open>currentSource.stop()\<close>). The \<^verbatim>\<open>ended\<close> event a browser sends for
  a node stopped by \<^verbatim>\<open>pause\<close> or \<^verbatim>\<open>stop\<close> is not part of the model.
\<close>

definition play ::
  "config \<Rightarrow> ('n clip \<Rightarrow> bool) \<Rightarrow> bool \<Rightarrow> ('n::{zero,one,plus}) abm \<Rightarrow> js_error + ('n abm \<times> 'n hook list)" where
  "play cfg starts ctx_ok s =
     (case (if \<not> isInitialized s then initialize ctx_ok s else Inr s) of
        Inl e \<Rightarrow> Inl e
      | Inr s1 \<Rightarrow>
          if isPlaying s1 \<and> \<not> isPaused s1 then Inr (s1, [])
          else Inr (playNext cfg starts (s1\<lparr>isPlaying := True, isPaused := False\<rparr>)))"

definition pause :: "('n::{zero,plus}) abm \<Rightarrow> 'n abm \<times> 'n hook list" where
  "pause s =
     (if \<not> isPlaying s then (s, [])
      else
        let s1 = s\<lparr>isPaused := True\<rparr>;
            s2 = (case currentSource s1 of None \<Rightarrow> s1 | Some _ \<Rightarrow> s1\<lparr>currentSource := None\<rparr>)
        in (s2, notifyBufferUpdate s2))"

definition resume ::
  "config \<Rightarrow> ('n clip \<Rightarrow> bool) \<Rightarrow> ('n::{zero,plus}) abm \<Rightarrow> 'n abm \<times> 'n hook list" where
  "resume cfg starts s =
     (if \<not> isPaused s then (s, [])
      else playNext cfg starts (s\<lparr>isPaused := False\<rparr>))"

definition stop :: "('n::{zero,plus}) abm \<Rightarrow> 'n abm \<times> 'n hook list" where
  "stop s =
     (let s1 = s\<lparr>isPlaying := False, isPaused := False\<rparr>;
          s2 = (case currentSource s1 of None \<Rightarrow> s1 | Some _ \<Rightarrow> s1\<lparr>currentSource := None\<rparr>);
          s3 = s2\<lparr>currentlyPlaying := None\<rparr>
      in (s3, notifyBufferUpdate s3))"

definition setVolume :: "('n::{zero,one,ord}) \<Rightarrow> 'n abm \<Rightarrow> 'n abm" where
  "setVolume level s =
     (case gainNode s of
        None \<Rightarrow> s
      | Some _ \<Rightarrow> s\<lparr>gainNode := Some (max 0 (min 1 level))\<rparr>)"

definition clearQueue :: "('n::{zero,plus}) abm \<Rightarrow> 'n abm \<times> 'n hook list" where
  "clearQueue s = (let s1 = s\<lparr>queue := []\<rparr> in (s1, notifyBufferUpdate s1))"


text \<open>
  The operations a caller of the buffer can invoke, and the result of invoking one:
  \<open>Inl\<close> when the call throws (or its promise rejects), otherwise the new state with
  the callbacks made.
\<close>

datatype 'n call =
    AddToQueue "'n clip" bool
  | Play bool
  | Pause
  | Resume
  | Stop
  | SetVolume 'n

fun invoke ::
  "config \<Rightarrow> ('n clip \<Rightarrow> bool) \<Rightarrow> 'n call \<Rightarrow> ('n::{zero,one,plus,ord}) abm \<Rightarrow> js_error + ('n abm \<times> 'n hook list)" where
  "invoke cfg starts (AddToQueue c decode_ok) s = addToQueue cfg decode_ok c s"
| "invoke cfg starts (Play ctx_ok) s = play cfg starts ctx_ok s"
| "invoke cfg starts Pause s = Inr (pause s)"
| "invoke cfg starts Resume s = Inr (resume cfg starts s)"
| "invoke cfg starts Stop s = Inr (stop s)"
| "invoke cfg starts (SetVolume level) s = Inr (setVolume level s, [])"

text \<open>A sequence of \<^verbatim>\<open>addToQueue\<close> calls; a call that throws leaves the buffer as it was.\<close>

fun addToQueue_all :: "config \<Rightarrow> (('n::{zero,plus}) clip \<times> bool) list \<Rightarrow> 'n abm \<Rightarrow> 'n abm" where
  "addToQueue_all cfg [] s = s"
| "addToQueue_all cfg (call # calls) s =
     (case addToQueue cfg (snd call) (fst call) s of
        Inl e \<Rightarrow> addToQueue_all cfg calls s
      | Inr r \<Rightarrow> addToQueue_all cfg calls (fst r))"

subsection \<open>The consumer loop\<close>

text \<open>
  What drives playback once it runs: the current source node finishes (only a node
  whose start went through does), a pending timeout fires, a clip is enqueued, or
  \<^verbatim>\<open>play()\<close> is called. An event that cannot occur in the state at hand changes
  nothing.
\<close>

datatype 'n playback_event =
    SourceEnded
  | TimeoutFired
  | Enqueued "'n clip" bool
  | PlayCalled bool

fun consumer_step ::
  "config \<Rightarrow> ('n clip \<Rightarrow> bool) \<Rightarrow> 'n playback_event \<Rightarrow> ('n::{zero,one,plus}) abm \<Rightarrow> 'n abm \<times> 'n hook list" where
  "consumer_step cfg starts SourceEnded s =
     (case currentSource s of
        None \<Rightarrow> (s, [])
      | Some src \<Rightarrow> if snd src then onended cfg starts (fst src) s else (s, []))"
| "consumer_step cfg starts TimeoutFired s =
     (if timeouts s = 0 then (s, [])
      else playNext cfg starts (s\<lparr>timeouts := timeouts s - 1\<rparr>))"
| "consumer_step cfg starts (Enqueued c decode_ok) s =
     (case addToQueue cfg decode_ok c s of Inl e \<Rightarrow> (s, []) | Inr r \<Rightarrow> r)"
| "consumer_step cfg starts (PlayCalled ctx_ok) s =
     (case play cfg starts ctx_ok s of Inl e \<Rightarrow> (s, []) | Inr r \<Rightarrow> r)"


text \<open>
  The order of clip notifications in a list of callbacks: a clip starts only when no
  started clip is waiting for its end, and the end reported is that of the clip
  started last. The first argument is the clip that has started and not yet ended.
\<close>

fun clip_order :: "'n clip option \<Rightarrow> 'n hook list \<Rightarrow> bool" where
  "clip_order cur [] = True"
| "clip_order cur (OnClipStart c # hs) = (cur = None \<and> clip_order (Some c) hs)"
| "clip_order cur (OnClipEnd c # hs) = (cur = Some c \<and> clip_order None hs)"
| "clip_order cur (OnBufferLow # hs) = clip_order cur hs"
| "clip_order cur (OnBufferUpdate st # hs) = clip_order cur hs"
| "clip_order cur (OnError # hs) = clip_order cur hs"


text \<open>
  For the proofs: the clip left open by a list of callbacks, the clip of a current
  source node that has started, and what holds of the buffer between two events of the
  consumer loop when no start fails (nothing is pending, or one timeout is, or one
  started node is).
\<close>

fun open_after :: "'n clip option \<Rightarrow> 'n hook list \<Rightarrow> 'n clip option" where
  "open_after cur [] = cur"
| "open_after cur (OnClipStart c # hs) = open_after (Some c) hs"
| "open_after cur (OnClipEnd c # hs) = open_after None hs"
| "open_after cur (OnBufferLow # hs) = open_after cur hs"
| "open_after cur (OnBufferUpdate st # hs) = open_after cur hs"
| "open_after cur (OnError # hs) = open_after cur hs"

definition sounding :: "'n abm \<Rightarrow> 'n clip option" where
  "sounding s =
     (case currentSource s of
        None \<Rightarrow> None
      | Some src \<Rightarrow> if snd src then Some (fst src) else None)"

definition consumer_inv :: "'n abm \<Rightarrow> bool" where
  "consumer_inv s =
     (\<not> isPaused s \<and>
      ((sounding s = None \<and> timeouts s = 0) \<or>
       (isPlaying s \<and> sounding s = None \<and> timeouts s = 1) \<or>
       (isPlaying s \<and> sounding s \<noteq> None \<and> timeouts s = 0)))"

definition consumer_step_ok ::
  "config \<Rightarrow> ('n clip \<Rightarrow> bool) \<Rightarrow> 'n playback_event \<Rightarrow> ('n::{zero,one,plus}) abm \<Rightarrow> bool" where
  "consumer_step_ok cfg starts e s =
     (consumer_inv (fst (consumer_step cfg starts e s)) \<and>
      clip_order (sounding s) (snd (consumer_step cfg starts e s)) \<and>
      open_after (sounding s) (snd (consumer_step cfg starts e s))
        = sounding (fst (consumer_step cfg starts e s)))"

section \<open>PoetryModule\<close>

text \<open>
  Strings are lists of code units below 256. \<open>js_whitespace\<close> lists the ones
  \<^verbatim>\<open>String.prototype.trim\<close> strips (tab, line feed, vertical tab, form feed,
  carriage return, space, no-break space); \<open>split_newline\<close> is
  \<^verbatim>\<open>split('\n')\<close>, which always yields at least one piece.
\<close>

definition js_whitespace :: "char \<Rightarrow> bool" where
  "js_whitespace c =
     (c = CHR 0x09 \<or> c = CHR 0x0A \<or> c = CHR 0x0B \<or> c = CHR 0x0C \<or> c = CHR 0x0D \<or>
      c = CHR 0x20 \<or> c = CHR 0xA0)"

definition js_trim :: "string \<Rightarrow> string" where
  "js_trim str = rev (dropWhile js_whitespace (rev (dropWhile js_whitespace str)))"

fun split_newline :: "string \<Rightarrow> string list" where
  "split_newline [] = [[]]"
| "split_newline (c # cs) =
     (if c = CHR 0x0A then [] # split_newline cs
      else (case split_newline cs of
              [] \<Rightarrow> [[c]]
            | piece # pieces \<Rightarrow> (c # piece) # pieces))"

text \<open>\<^verbatim>\<open>poetry.split('\n').filter(line => line.trim())\<close>\<close>

definition nonblank_lines :: "string \<Rightarrow> string list" where
  "nonblank_lines poem = filter (\<lambda>line. js_trim line \<noteq> []) (split_newline poem)"

record poetry_module =
  previousLines :: "string list"
  sessionTheme :: "string option"

definition maxPreviousLines :: nat where
  "maxPreviousLines = 12"

definition new_PoetryModule :: poetry_module where
  "new_PoetryModule = \<lparr>previousLines = [], sessionTheme = None\<rparr>"

definition addToHistory :: "string \<Rightarrow> poetry_module \<Rightarrow> poetry_module" where
  "addToHistory poem p =
     (let pushed = previousLines p @ nonblank_lines poem
      in if maxPreviousLines < length pushed
         then p\<lparr>previousLines := drop (length pushed - maxPreviousLines) pushed\<rparr>
         else p\<lparr>previousLines := pushed\<rparr>)"

definition clearHistory :: "poetry_module \<Rightarrow> poetry_module" where
  "clearHistory p = p\<lparr>previousLines := [], sessionTheme := None\<rparr>"

section \<open>The application (\<^verbatim>\<open>main.js\<close>)\<close>

text \<open>
  A call of the \<^verbatim>\<open>async generateClip()\<close> that has passed its guard is suspended
  at one of four awaits until the awaited promise settles; \<open>'n run\<close> is where it
  waits and what it holds by then, \<open>'n settled\<close> is how the promise settles
  (\<open>Rejected\<close>, or resolved with the collaborator's result).
\<close>

datatype 'n run =
    AwaitVision
  | AwaitPoetry
  | AwaitTts string
  | AwaitDecode "'n clip"

datatype 'n settled =
    Rejected
  | Scene string
  | Poem string
  | Speech nat 'n
  | Decoded

text \<open>
  The \<^verbatim>\<open>Mil4dy\<close> instance with the module singletons it imports.
  \<^verbatim>\<open>stats.totalLatency\<close> (wall-clock time) and the DOM elements are left out;
  \<open>generationLoop\<close> says whether the interval timer is set;
  \<open>camera_isInitialized\<close> is the flag \<^verbatim>\<open>camera.captureFrame()\<close> tests before it
  throws. \<open>runs\<close> is not a field: it lists the suspended calls of
  \<^verbatim>\<open>generateClip\<close>.
\<close>

record 'n world =
  isRunning :: bool
  isGenerating :: bool
  generationLoop :: bool
  errors :: nat
  clipsGenerated :: nat
  camera_isInitialized :: bool
  poetry :: poetry_module
  audioBuffer :: "'n abm"
  runs :: "'n run list"

definition new_Mil4dy :: "bool \<Rightarrow> 'n world" where
  "new_Mil4dy camera_ok =
     \<lparr>isRunning = False, isGenerating = False, generationLoop = False, errors = 0,
      clipsGenerated = 0, camera_isInitialized = camera_ok, poetry = new_PoetryModule,
      audioBuffer = new_AudioBufferManager, runs = []\<rparr>"

text \<open>
  The \<^verbatim>\<open>catch\<close> and \<^verbatim>\<open>finally\<close> blocks of \<^verbatim>\<open>generateClip\<close>, run when a
  stage throws or rejects; the error goes no further.
\<close>

definition generateClip_catch :: "'n world \<Rightarrow> 'n world" where
  "generateClip_catch w = (w\<lparr>errors := errors w + 1\<rparr>)\<lparr>isGenerating := False\<rparr>"

text \<open>
  \<^verbatim>\<open>generateClip()\<close> from the call to the first await: the guard, the flag, the
  frame capture.
\<close>

definition generateClip_call :: "'n world \<Rightarrow> 'n world" where
  "generateClip_call w =
     (if isGenerating w then w
      else
        let w1 = w\<lparr>isGenerating := True\<rparr>
        in if camera_isInitialized w1 then w1\<lparr>runs := runs w1 @ [AwaitVision]\<rparr>
           else generateClip_catch w1)"

text \<open>The callbacks \<^verbatim>\<open>setupAudioCallbacks\<close> registers; \<^verbatim>\<open>onClipEnd\<close> is left unset.\<close>

fun callback :: "'n hook \<Rightarrow> 'n world \<Rightarrow> 'n world" where
  "callback (OnClipStart c) w = w"
| "callback OnBufferLow w =
     (if isRunning w \<and> \<not> isGenerating w then generateClip_call w else w)"
| "callback (OnBufferUpdate st) w = w"
| "callback OnError w = w\<lparr>errors := errors w + 1\<rparr>"
| "callback (OnClipEnd c) w = w"

definition deliver :: "'n abm \<times> 'n hook list \<Rightarrow> 'n world \<Rightarrow> 'n world" where
  "deliver r w = foldl (\<lambda>w' h. callback h w') (w\<lparr>audioBuffer := fst r\<rparr>) (snd r)"

text \<open>
  \<^verbatim>\<open>generateClip()\<close> from one await to the next (or to its end), when the awaited
  promise settles with \<open>x\<close>. The result is where the call waits next (\<open>None\<close> when
  it has returned) and the new state. \<^verbatim>\<open>poetry.generate\<close> trims the reply and
  adds it to the history before it returns; \<^verbatim>\<open>tts.synthesize\<close> returns the clip
  with the text it was given.
\<close>

fun generateClip_resume ::
  "config \<Rightarrow> 'n settled \<Rightarrow> 'n run \<Rightarrow> ('n::{zero,plus}) world \<Rightarrow> 'n run option \<times> 'n world" where
  "generateClip_resume cfg (Scene description) AwaitVision w = (Some AwaitPoetry, w)"
| "generateClip_resume cfg Rejected AwaitVision w = (None, generateClip_catch w)"
| "generateClip_resume cfg (Poem content) AwaitPoetry w =
     (let poem = js_trim content
      in (Some (AwaitTts poem), w\<lparr>poetry := addToHistory poem (poetry w)\<rparr>))"
| "generateClip_resume cfg Rejected AwaitPoetry w = (None, generateClip_catch w)"
| "generateClip_resume cfg (Speech b d) (AwaitTts poem) w =
     (let audio = \<lparr>text_clip = poem, duration = d, blob = b\<rparr>
      in (case addToQueue_guard (audioBuffer w) of
            Inl e \<Rightarrow> (None, generateClip_catch w)
          | Inr _ \<Rightarrow> (Some (AwaitDecode audio), w)))"
| "generateClip_resume cfg Rejected (AwaitTts poem) w = (None, generateClip_catch w)"
| "generateClip_resume cfg Decoded (AwaitDecode audio) w =
     (let w1 = deliver (addToQueue_push cfg audio (audioBuffer w)) w;
          w2 = w1\<lparr>clipsGenerated := clipsGenerated w1 + 1\<rparr>
      in (None, w2\<lparr>isGenerating := False\<rparr>))"
| "generateClip_resume cfg Rejected (AwaitDecode audio) w = (None, generateClip_catch w)"
| "generateClip_resume cfg x r w = (Some r, w)"

text \<open>The promise awaited by the \<open>i\<close>-th suspended call settles.\<close>

definition settle :: "config \<Rightarrow> nat \<Rightarrow> 'n settled \<Rightarrow> ('n::{zero,plus}) world \<Rightarrow> 'n world" where
  "settle cfg i x w =
     (if i < length (runs w) then
        (case generateClip_resume cfg x (runs w ! i) w of
           (None, w') \<Rightarrow> w'\<lparr>runs := take i (runs w') @ drop (Suc i) (runs w')\<rparr>
         | (Some r, w') \<Rightarrow> w'\<lparr>runs := (runs w')[i := r]\<rparr>)
      else w)"

text \<open>
  What the four collaborators answer during one call of \<^verbatim>\<open>generateClip\<close>
  (\<open>None\<close>, \<open>False\<close>: the promise rejects), and the call awaited to its end with
  no other event handled in between (the way \<^verbatim>\<open>start()\<close> awaits it). Every
  promise is taken to settle.
\<close>

record 'n outcome =
  vision_result :: "string option"
  poetry_result :: "string option"
  tts_result :: "(nat \<times> 'n) option"
  decode_result :: bool

definition settlements :: "'n outcome \<Rightarrow> 'n settled list" where
  "settlements out =
     [case vision_result out of None \<Rightarrow> Rejected | Some description \<Rightarrow> Scene description,
      case poetry_result out of None \<Rightarrow> Rejected | Some content \<Rightarrow> Poem content,
      case tts_result out of None \<Rightarrow> Rejected | Some audio \<Rightarrow> Speech (fst audio) (snd audio),
      if decode_result out then Decoded else Rejected]"

definition generateClip :: "config \<Rightarrow> 'n outcome \<Rightarrow> ('n::{zero,plus}) world \<Rightarrow> 'n world" where
  "generateClip cfg out w =
     foldl (\<lambda>w' x. settle cfg (length (runs w)) x w') (generateClip_call w) (settlements out)"

text \<open>\<^verbatim>\<open>stop()\<close>, \<^verbatim>\<open>startGenerationLoop()\<close> and the interval callback.\<close>

definition Mil4dy_stop :: "('n::{zero,plus}) world \<Rightarrow> 'n world" where
  "Mil4dy_stop w =
     (let w1 = w\<lparr>isRunning := False\<rparr>;
          w2 = w1\<lparr>generationLoop := False\<rparr>
      in deliver (pause (audioBuffer w2)) w2)"

definition startGenerationLoop :: "'n world \<Rightarrow> 'n world" where
  "startGenerationLoop w = w\<lparr>generationLoop := True\<rparr>"

definition interval_callback :: "config \<Rightarrow> ('n::{zero,plus}) world \<Rightarrow> 'n world" where
  "interval_callback cfg w =
     (let status = getStatus (audioBuffer w)
      in if queuedClips status < minBufferClips cfg + 1
         then (if \<not> isGenerating w then generateClip_call w else w)
         else w)"

text \<open>
  \<^verbatim>\<open>start()\<close> in its three parts: up to the two awaited \<^verbatim>\<open>generateClip()\<close>
  calls (\<open>Inl\<close>: \<^verbatim>\<open>audioBuffer.initialize()\<close> rejected), the two calls, and the
  rest. \<^verbatim>\<open>audioBuffer.play()\<close> is not awaited, so an error of it is not caught.
  When \<^verbatim>\<open>initialize()\<close> rejects, the \<^verbatim>\<open>catch\<close> block calls \<^verbatim>\<open>stop()\<close>.
\<close>

definition start_begin :: "bool \<Rightarrow> ('n::{zero,one,plus}) world \<Rightarrow> js_error + 'n world" where
  "start_begin ctx_ok w =
     (let w1 = w\<lparr>isRunning := True\<rparr>
      in case initialize ctx_ok (audioBuffer w1) of
           Inl e \<Rightarrow> Inl e
         | Inr b \<Rightarrow> Inr (w1\<lparr>audioBuffer := b\<rparr>))"

definition start_buffer ::
  "config \<Rightarrow> 'n outcome \<Rightarrow> 'n outcome \<Rightarrow> ('n::{zero,plus}) world \<Rightarrow> 'n world" where
  "start_buffer cfg out1 out2 w = generateClip cfg out2 (generateClip cfg out1 w)"

definition start_end ::
  "config \<Rightarrow> ('n clip \<Rightarrow> bool) \<Rightarrow> bool \<Rightarrow> ('n::{zero,one,plus}) world \<Rightarrow> 'n world" where
  "start_end cfg starts ctx_ok w =
     (let w1 = (case play cfg starts ctx_ok (audioBuffer w) of
                  Inl e \<Rightarrow> w
                | Inr r \<Rightarrow> deliver r w)
      in startGenerationLoop w1)"

definition start ::
  "config \<Rightarrow> ('n clip \<Rightarrow> bool) \<Rightarrow> bool \<Rightarrow> 'n outcome \<Rightarrow> 'n outcome \<Rightarrow> ('n::{zero,one,plus}) world \<Rightarrow> 'n world" where
  "start cfg starts ctx_ok out1 out2 w =
     (case start_begin ctx_ok w of
        Inl e \<Rightarrow> Mil4dy_stop (w\<lparr>isRunning := True\<rparr>)
      | Inr w1 \<Rightarrow> start_end cfg starts ctx_ok (start_buffer cfg out1 out2 w1))"


text \<open>
  The buffering phase of \<^verbatim>\<open>start()\<close> in the words of the specification: the
  pipeline is triggered, one attempt after the other, until \<open>target\<close> segments have
  been enqueued or the attempts (one per listed outcome) are used up. A segment has
  been enqueued when \<^verbatim>\<open>stats.clipsGenerated\<close> went up.
\<close>

fun prime_until ::
  "config \<Rightarrow> nat \<Rightarrow> 'n outcome list \<Rightarrow> nat \<Rightarrow> ('n::{zero,plus}) world \<Rightarrow> 'n world" where
  "prime_until cfg target [] enqueued w = w"
| "prime_until cfg target (out # outs) enqueued w =
     (if enqueued = target then w
      else
        let w' = generateClip cfg out w;
            enqueued' = (if clipsGenerated w' = clipsGenerated w + 1 then enqueued + 1 else enqueued)
        in prime_until cfg target outs enqueued' w')"

subsection \<open>Interleavings\<close>

text \<open>
  JavaScript runs each piece of code between two awaits to its end before the next
  event is handled. An execution of the application is therefore a sequence of events,
  each handled in one step: an explicit call of \<^verbatim>\<open>generateClip()\<close>, a tick of the
  interval timer (only when the timer is set), the settling of the promise a suspended
  call awaits, an event of the playback consumer (whose callbacks are delivered to the
  application), a call of \<^verbatim>\<open>stop()\<close>, and the first and the last part of
  \<^verbatim>\<open>start()\<close>.
\<close>

datatype 'n event =
    Call_generateClip
  | IntervalTick
  | Settle nat "'n settled"
  | Playback "'n playback_event"
  | Call_stop
  | Start_begin bool
  | Start_end bool

fun step ::
  "config \<Rightarrow> ('n clip \<Rightarrow> bool) \<Rightarrow> 'n event \<Rightarrow> ('n::{zero,one,plus}) world \<Rightarrow> 'n world" where
  "step cfg starts Call_generateClip w = generateClip_call w"
| "step cfg starts IntervalTick w = (if generationLoop w then interval_callback cfg w else w)"
| "step cfg starts (Settle i x) w = settle cfg i x w"
| "step cfg starts (Playback e) w = deliver (consumer_step cfg starts e (audioBuffer w)) w"
| "step cfg starts Call_stop w = Mil4dy_stop w"
| "step cfg starts (Start_begin ctx_ok) w =
     (case start_begin ctx_ok w of
        Inl e \<Rightarrow> Mil4dy_stop (w\<lparr>isRunning := True\<rparr>)
      | Inr w1 \<Rightarrow> w1)"
| "step cfg starts (Start_end ctx_ok) w = start_end cfg starts ctx_ok w"

definition exec ::
  "config \<Rightarrow> ('n clip \<Rightarrow> bool) \<Rightarrow> 'n event list \<Rightarrow> ('n::{zero,one,plus}) world \<Rightarrow> 'n world" where
  "exec cfg starts evs w = foldl (\<lambda>w' e. step cfg starts e w') w evs"

text \<open>
  Single flight: at most one call of \<^verbatim>\<open>generateClip\<close> is suspended, and the flag
  \<^verbatim>\<open>isGenerating\<close> is set exactly while one is.
\<close>

definition single_flight :: "'n world \<Rightarrow> bool" where
  "single_flight w = (length (runs w) \<le> 1 \<and> isGenerating w = (runs w \<noteq> []))"

section \<open>Example data\<close>

definition S1 :: "real clip" where
  "S1 = \<lparr>text_clip = ''one'', duration = 4, blob = 1\<rparr>"

definition S2 :: "real clip" where
  "S2 = \<lparr>text_clip = ''two'', duration = 5, blob = 2\<rparr>"

definition S3 :: "real clip" where
  "S3 = \<lparr>text_clip = ''three'', duration = 6, blob = 3\<rparr>"

definition activated :: "real abm" where
  "activated = new_AudioBufferManager\<lparr>gainNode := Some 1, isInitialized := True\<rparr>"

definition bounds_1_2 :: config where
  "bounds_1_2 = \<lparr>minBufferClips = 1, maxBufferClips = 2\<rparr>"

definition always_starts :: "real clip \<Rightarrow> bool" where
  "always_starts c = True"


definition out_ok :: "real outcome" where
  "out_ok = \<lparr>vision_result = Some ''a desk by a window'',
     poetry_result = Some ''  soft light\<newline>on paper \<newline>\<newline>'',
     tts_result = Some (7, 3), decode_result = True\<rparr>"

definition out_synthesize_fails :: "real outcome" where
  "out_synthesize_fails = out_ok\<lparr>tts_result := None\<rparr>"

definition out_describe_fails :: "real outcome" where
  "out_describe_fails = out_ok\<lparr>vision_result := None\<rparr>"

definition idle_world :: "real world" where
  "idle_world = (new_Mil4dy True)\<lparr>audioBuffer := activated\<rparr>"

text \<open>
  A session from the start: \<^verbatim>\<open>start()\<close> with two successful runs, a third run
  triggered by the low-buffer signal when playback begins, \<^verbatim>\<open>stop()\<close> while that
  run waits for the synthesis, and the run carried to its end.
\<close>

definition stop_in_flight :: "real event list" where
  "stop_in_flight =
     [Start_begin True,
      Call_generateClip, Settle 0 (Scene ''a desk by a window''), Settle 0 (Poem ''soft light''),
        Settle 0 (Speech 7 3), Settle 0 Decoded,
      Call_generateClip, Settle 0 (Scene ''a desk by a window''), Settle 0 (Poem ''on paper''),
        Settle 0 (Speech 8 4), Settle 0 Decoded,
      Start_end True,
      Settle 0 (Scene ''a lamp''), Settle 0 (Poem ''warm glow''),
      Call_stop,
      Settle 0 (Speech 9 5), Settle 0 Decoded]"


text \<open>The state that session leaves behind, on which a second session starts.\<close>

definition second_session :: "real world" where
  "second_session = exec config_timing always_starts stop_in_flight (new_Mil4dy True)"

text \<open>Triggers of all three kinds, most of them while a run is in progress.\<close>

definition many_triggers :: "real event list" where
  "many_triggers =
     [Start_begin True, Call_generateClip, Call_generateClip, Start_end True, IntervalTick,
      Playback TimeoutFired, Call_generateClip, Settle 0 (Scene ''a lamp''), IntervalTick,
      Call_generateClip]"

section \<open>Properties of the buffer\<close>

declare trim.simps [simp del]
declare playNext.simps [simp del]


subsection \<open>The queue bound\<close>

lemma trim_drop: "trim m q = drop (length q - m) q"
proof (induction m q rule: trim.induct)
  case (1 m q)
  show ?case
  proof (cases "m < length q")
    case True
    then obtain x xs where q: "q = x # xs" by (cases q) auto
    from True 1 have "trim m q = drop (length (tl q) - m) (tl q)"
      by (simp add: trim.simps [of m q])
    also have "\<dots> = drop (length q - m) q"
      using True q by (simp add: Suc_diff_le)
    finally show ?thesis .
  next
    case False
    then show ?thesis by (simp add: trim.simps [of m q])
  qed
qed

lemma queue_addToQueue_push:
  "queue (fst (addToQueue_push cfg c s)) =
     drop (Suc (length (queue s)) - maxBufferClips cfg) (queue s @ [c])"
  by (simp add: addToQueue_push_def Let_def trim_drop)

lemma isInitialized_addToQueue_push:
  "isInitialized (fst (addToQueue_push cfg c s)) = isInitialized s"
  by (simp add: addToQueue_push_def Let_def)

lemma addToQueue_all_bound:
  "length (queue s) \<le> maxBufferClips cfg \<Longrightarrow>
   length (queue (addToQueue_all cfg calls s)) \<le> maxBufferClips cfg"
proof (induction calls arbitrary: s)
  case Nil
  then show ?case by simp
next
  case (Cons call calls)
  show ?case
  proof (cases "addToQueue cfg (snd call) (fst call) s")
    case (Inl e)
    with Cons show ?thesis by simp
  next
    case (Inr r)
    then have "fst r = fst (addToQueue_push cfg (fst call) s)"
      by (auto simp: addToQueue_def split: sum.splits if_splits)
    then have "length (queue (fst r)) \<le> maxBufferClips cfg"
      by (simp add: queue_addToQueue_push)
    with Cons.IH Inr show ?thesis by simp
  qed
qed

text \<open>Keeping the last \<open>m\<close> elements twice is keeping them once.\<close>

lemma keep_last_append:
  "drop (length (drop (length xs - m) xs @ ys) - m) (drop (length xs - m) xs @ ys)
     = drop (length (xs @ ys) - m) (xs @ ys)"
proof (cases "length xs \<le> m")
  case True
  then show ?thesis by simp
next
  case False
  define k where "k = length xs - m"
  have k: "k \<le> length xs" "length xs - k = m" "length xs + length ys - m = length ys + k"
    using False by (simp_all add: k_def)
  have "drop (length (drop k xs @ ys) - m) (drop k xs @ ys) = drop (length ys) (drop k xs @ ys)"
    using k by simp
  also have "\<dots> = drop (length ys) (drop k (xs @ ys))"
    using k by simp
  also have "\<dots> = drop (length ys + k) (xs @ ys)"
    by (simp only: drop_drop)
  also have "length ys + k = length (xs @ ys) - m"
    using k by simp
  finally show ?thesis by (simp only: k_def)
qed

lemma addToQueue_all_queue:
  "isInitialized s \<Longrightarrow> length (queue s) \<le> maxBufferClips cfg \<Longrightarrow>
   queue (addToQueue_all cfg calls s) =
     drop (length (queue s @ map fst (filter snd calls)) - maxBufferClips cfg)
       (queue s @ map fst (filter snd calls))"
proof (induction calls arbitrary: s)
  case Nil
  then show ?case by simp
next
  case (Cons call calls)
  show ?case
  proof (cases "snd call")
    case False
    with Cons.prems have "addToQueue cfg (snd call) (fst call) s = Inl DecodeError"
      by (simp add: addToQueue_def addToQueue_guard_def)
    with Cons False show ?thesis by simp
  next
    case True
    let ?s' = "fst (addToQueue_push cfg (fst call) s)"
    let ?rest = "map fst (filter snd calls)"
    let ?m = "maxBufferClips cfg"
    from True Cons.prems have step:
      "addToQueue cfg (snd call) (fst call) s = Inr (addToQueue_push cfg (fst call) s)"
      by (simp add: addToQueue_def addToQueue_guard_def)
    have q': "queue ?s' = drop (length (queue s @ [fst call]) - ?m) (queue s @ [fst call])"
      by (simp add: queue_addToQueue_push)
    have "isInitialized ?s'"
      using Cons.prems by (simp add: isInitialized_addToQueue_push)
    moreover have "length (queue ?s') \<le> ?m"
      by (simp add: q')
    ultimately have "queue (addToQueue_all cfg calls ?s') =
        drop (length (queue ?s' @ ?rest) - ?m) (queue ?s' @ ?rest)"
      by (rule Cons.IH)
    also have "\<dots> = drop (length ((queue s @ [fst call]) @ ?rest) - ?m) ((queue s @ [fst call]) @ ?rest)"
      unfolding q' by (rule keep_last_append)
    finally show ?thesis
      using step True by simp
  qed
qed

text \<open>
  Claim C1. From a queue within the bound, after every call of a sequence of
  \<^verbatim>\<open>addToQueue\<close> calls (whether a call decodes its clip or throws) the queue holds
  at most \<^verbatim>\<open>maxBufferClips\<close> clips; and on an initialised buffer the queue after
  the calls is the old queue followed by the clips that decoded, cut down from the
  head to its last \<^verbatim>\<open>maxBufferClips\<close> entries: the oldest clips are the ones
  dropped. Scenario A (bounds 1 and 2, clips S1, S2, S3 enqueued in order, final queue
  S2, S3) is the instance that follows the theorem.
\<close>

theorem addToQueue_bounded_drops_oldest:
  "length (queue s) \<le> maxBufferClips cfg \<Longrightarrow>
     length (queue (addToQueue_all cfg (take k calls) s)) \<le> maxBufferClips cfg \<and>
     (isInitialized s \<longrightarrow>
        queue (addToQueue_all cfg calls s) =
          drop (length (queue s @ map fst (filter snd calls)) - maxBufferClips cfg)
            (queue s @ map fst (filter snd calls)))"
  by (simp add: addToQueue_all_bound addToQueue_all_queue del: append_assoc)

theorem scenario_A:
  "initialize True new_AudioBufferManager = Inr activated \<and>
   length (queue activated) \<le> maxBufferClips bounds_1_2 \<and>
   isInitialized activated \<and>
   queue (addToQueue_all bounds_1_2 [(S1, True), (S2, True), (S3, True)] activated)
     = [S2, S3] \<and>
   length (queue (addToQueue_all bounds_1_2
             (take 2 [(S1, True), (S2, True), (S3, True)]) activated)) \<le> 2"
  using addToQueue_bounded_drops_oldest
    [of activated bounds_1_2 2 "[(S1, True), (S2, True), (S3, True)]"]
  by (simp add: activated_def new_AudioBufferManager_def initialize_def bounds_1_2_def)


subsection \<open>Callbacks of an enqueue\<close>

text \<open>
  Claim C4, as the code has it. A successful \<^verbatim>\<open>addToQueue\<close> makes exactly one
  callback: the buffer-status update, with the status read after the clip was appended
  and before the queue is trimmed. It raises no low-buffer signal, however short the
  queue it leaves. The low-buffer signal is raised by \<^verbatim>\<open>playNext\<close>: whenever it
  runs (playing, not paused) on a queue of at most \<^verbatim>\<open>minBufferClips\<close> clips.
\<close>

theorem addToQueue_update_without_low_signal:
  "addToQueue cfg decode_ok c s = Inr (s', made) \<Longrightarrow>
     made = [OnBufferUpdate (getStatus (s\<lparr>queue := queue s @ [c]\<rparr>))] \<and>
     OnBufferLow \<notin> set made \<and>
     (isPlaying s' \<and> \<not> isPaused s' \<and> length (queue s') \<le> minBufferClips cfg \<longrightarrow>
        OnBufferLow \<in> set (snd (playNext cfg starts s')))"
proof -
  assume a: "addToQueue cfg decode_ok c s = Inr (s', made)"
  then have r: "addToQueue_push cfg c s = (s', made)"
    by (auto simp: addToQueue_def split: sum.splits if_splits)
  then have made: "made = [OnBufferUpdate (getStatus (s\<lparr>queue := queue s @ [c]\<rparr>))]"
    by (auto simp: addToQueue_push_def Let_def notifyBufferUpdate_def)
  have "OnBufferLow \<in> set (snd (playNext cfg starts s'))"
    if "isPlaying s'" "\<not> isPaused s'" "length (queue s') \<le> minBufferClips cfg"
    using that by (simp add: playNext.simps [of cfg starts s'] Let_def split: list.splits)
  with made show ?thesis by simp
qed

theorem addToQueue_update_example:
  "addToQueue config_timing True S1 (activated\<lparr>isPlaying := True\<rparr>)
     = Inr (activated\<lparr>isPlaying := True, queue := [S1]\<rparr>,
            [OnBufferUpdate (getStatus (activated\<lparr>isPlaying := True, queue := [S1]\<rparr>))]) \<and>
   OnBufferLow \<notin> set [OnBufferUpdate (getStatus (activated\<lparr>isPlaying := True, queue := [S1]\<rparr>))] \<and>
   isPlaying (activated\<lparr>isPlaying := True, queue := [S1]\<rparr>) \<and>
   \<not> isPaused (activated\<lparr>isPlaying := True, queue := [S1]\<rparr>) \<and>
   length (queue (activated\<lparr>isPlaying := True, queue := [S1]\<rparr>)) \<le> minBufferClips config_timing \<and>
   OnBufferLow \<in> set (snd (playNext config_timing always_starts
      (activated\<lparr>isPlaying := True, queue := [S1]\<rparr>)))"
proof -
  have call: "addToQueue config_timing True S1 (activated\<lparr>isPlaying := True\<rparr>)
     = Inr (activated\<lparr>isPlaying := True, queue := [S1]\<rparr>,
            [OnBufferUpdate (getStatus (activated\<lparr>isPlaying := True, queue := [S1]\<rparr>))])"
    by (simp add: addToQueue_def addToQueue_guard_def addToQueue_push_def Let_def
        notifyBufferUpdate_def trim.simps activated_def new_AudioBufferManager_def
        config_timing_def)
  have state: "isPlaying (activated\<lparr>isPlaying := True, queue := [S1]\<rparr>)"
    "\<not> isPaused (activated\<lparr>isPlaying := True, queue := [S1]\<rparr>)"
    "length (queue (activated\<lparr>isPlaying := True, queue := [S1]\<rparr>)) \<le> minBufferClips config_timing"
    by (simp_all add: activated_def new_AudioBufferManager_def config_timing_def)
  from addToQueue_update_without_low_signal [OF call, of always_starts] state
  have "OnBufferLow \<notin> set [OnBufferUpdate (getStatus (activated\<lparr>isPlaying := True, queue := [S1]\<rparr>))]"
    "OnBufferLow \<in> set (snd (playNext config_timing always_starts
      (activated\<lparr>isPlaying := True, queue := [S1]\<rparr>)))"
    by blast+
  with call state show ?thesis by blast
qed

text \<open>
  The claim as written fails: on an initialised, empty buffer with the bounds of
  \<^verbatim>\<open>config.js\<close>, enqueuing one clip leaves a queue of length 1, below
  \<^verbatim>\<open>minBufferClips = 2\<close>, and the only callback is the status update.
\<close>

theorem addToQueue_no_low_signal_example:
  "addToQueue config_timing True S1 activated =
     Inr (activated\<lparr>queue := [S1]\<rparr>,
          [OnBufferUpdate \<lparr>queuedClips = 1, totalBufferedSeconds = 4, isPlaying_status = False,
             isPaused_status = False, currentlyPlaying_status = None\<rparr>]) \<and>
   length (queue (activated\<lparr>queue := [S1]\<rparr>)) \<le> minBufferClips config_timing \<and>
   OnBufferLow \<notin> set [OnBufferUpdate \<lparr>queuedClips = 1, totalBufferedSeconds = 4,
             isPlaying_status = False, isPaused_status = False, currentlyPlaying_status = None\<rparr>]"
  by (simp add: addToQueue_def addToQueue_guard_def addToQueue_push_def Let_def
      notifyBufferUpdate_def getStatus_def getTotalBufferedSeconds_def trim.simps
      activated_def new_AudioBufferManager_def config_timing_def S1_def)

subsection \<open>Operations before \<^verbatim>\<open>initialize()\<close>\<close>

lemma isInitialized_playNext:
  "isInitialized (fst (playNext cfg starts s)) = isInitialized s"
proof (induction cfg starts s rule: playNext.induct)
  case (1 cfg starts s)
  show ?case
  proof (cases "\<not> isPlaying s \<or> isPaused s")
    case True
    then show ?thesis by (simp add: playNext.simps [of cfg starts s])
  next
    case playing: False
    show ?thesis
    proof (cases "queue s")
      case Nil
      with playing show ?thesis by (simp add: playNext.simps [of cfg starts s])
    next
      case (Cons c rest)
      show ?thesis
      proof (cases "starts c")
        case True
        with playing Cons show ?thesis
          by (simp add: playNext.simps [of cfg starts s] Let_def)
      next
        case False
        with playing Cons "1.IH" [OF playing refl Cons refl refl False]
        show ?thesis
          by (simp add: playNext.simps [of cfg starts s] Let_def)
      qed
    qed
  qed
qed

text \<open>
  Claim C5, as the code has it. On a buffer that is not initialised, only
  \<^verbatim>\<open>addToQueue\<close> throws the not-initialised error. \<^verbatim>\<open>play()\<close> calls
  \<^verbatim>\<open>initialize()\<close> itself and fails only when that fails; \<^verbatim>\<open>pause()\<close>,
  \<^verbatim>\<open>resume()\<close>, \<^verbatim>\<open>stop()\<close> and \<^verbatim>\<open>setVolume()\<close> return normally and
  leave the buffer uninitialised.
\<close>

theorem uninitialized_only_addToQueue_fails:
  "\<not> isInitialized s \<Longrightarrow>
     invoke cfg starts (AddToQueue c decode_ok) s = Inl NotInitialized \<and>
     invoke cfg starts (Play False) s = Inl AudioContextError \<and>
     (\<exists>r. invoke cfg starts (Play True) s = Inr r \<and> isInitialized (fst r)) \<and>
     (\<exists>r. invoke cfg starts Pause s = Inr r \<and> \<not> isInitialized (fst r)) \<and>
     (\<exists>r. invoke cfg starts Resume s = Inr r \<and> \<not> isInitialized (fst r)) \<and>
     (\<exists>r. invoke cfg starts Stop s = Inr r \<and> \<not> isInitialized (fst r)) \<and>
     (\<exists>r. invoke cfg starts (SetVolume level) s = Inr r \<and> \<not> isInitialized (fst r))"
proof -
  assume u: "\<not> isInitialized s"
  have add: "invoke cfg starts (AddToQueue c decode_ok) s = Inl NotInitialized"
    using u by (simp add: addToQueue_def addToQueue_guard_def)
  have play_bad: "invoke cfg starts (Play False) s = Inl AudioContextError"
    using u by (simp add: play_def initialize_def)
  have play_ok: "\<exists>r. invoke cfg starts (Play True) s = Inr r \<and> isInitialized (fst r)"
  proof (cases "isPlaying s \<and> \<not> isPaused s")
    case True
    with u show ?thesis by (simp add: play_def initialize_def)
  next
    case False
    let ?s1 = "s\<lparr>gainNode := Some 1, isInitialized := True, isPlaying := True, isPaused := False\<rparr>"
    from False u have "invoke cfg starts (Play True) s = Inr (playNext cfg starts ?s1)"
      by (auto simp: play_def initialize_def)
    moreover have "isInitialized (fst (playNext cfg starts ?s1))"
      by (simp add: isInitialized_playNext)
    ultimately show ?thesis by blast
  qed
  have p: "\<not> isInitialized (fst (pause s))"
    using u by (simp add: pause_def Let_def split: option.splits)
  have r: "\<not> isInitialized (fst (resume cfg starts s))"
    using u by (simp add: resume_def isInitialized_playNext)
  have st: "\<not> isInitialized (fst (stop s))"
    using u by (simp add: stop_def Let_def split: option.splits)
  have v: "\<not> isInitialized (setVolume level s)"
    using u by (simp add: setVolume_def split: option.splits)
  from add play_bad play_ok p r st v show ?thesis by simp
qed

theorem uninitialized_witness:
  "\<not> isInitialized (new_AudioBufferManager :: real abm) \<and>
   invoke config_timing always_starts (AddToQueue S1 True) new_AudioBufferManager = Inl NotInitialized \<and>
   invoke config_timing always_starts (Play False) (new_AudioBufferManager :: real abm) = Inl AudioContextError"
  using uninitialized_only_addToQueue_fails
    [of "new_AudioBufferManager :: real abm" config_timing always_starts S1 True 0]
  by (simp add: new_AudioBufferManager_def)

text \<open>
  The claim as written fails: \<^verbatim>\<open>pause()\<close> on a fresh buffer returns at its first
  line, without an error.
\<close>

theorem uninitialized_pause_example:
  "\<not> isInitialized (new_AudioBufferManager :: real abm) \<and>
   invoke config_timing always_starts Pause (new_AudioBufferManager :: real abm)
     = Inr (new_AudioBufferManager, []) \<and>
   invoke config_timing always_starts Pause (new_AudioBufferManager :: real abm)
     \<noteq> Inl NotInitialized"
  by (simp add: pause_def new_AudioBufferManager_def)

subsection \<open>The status snapshot\<close>

text \<open>
  Claim C10. \<^verbatim>\<open>getStatus()\<close> counts and sums the clips of the queue and nothing
  else: neither number depends on \<^verbatim>\<open>currentlyPlaying\<close>. When \<^verbatim>\<open>playNext\<close>
  takes the head of the queue and starts it, that clip is reported as
  \<^verbatim>\<open>currentlyPlaying\<close>, while \<^verbatim>\<open>queuedClips\<close> and
  \<^verbatim>\<open>totalBufferedSeconds\<close> are those of the rest of the queue.
\<close>

theorem getStatus_excludes_playing_clip:
  "queuedClips (getStatus s) = length (queue s) \<and>
   totalBufferedSeconds (getStatus s) = foldl (\<lambda>total c. total + duration c) 0 (queue s) \<and>
   queuedClips (getStatus (s\<lparr>currentlyPlaying := p\<rparr>)) = queuedClips (getStatus s) \<and>
   totalBufferedSeconds (getStatus (s\<lparr>currentlyPlaying := p\<rparr>)) = totalBufferedSeconds (getStatus s) \<and>
   (isPlaying s \<and> \<not> isPaused s \<and> queue s = c # rest \<and> starts c \<longrightarrow>
      queue (fst (playNext cfg starts s)) = rest \<and>
      currentlyPlaying (fst (playNext cfg starts s)) = Some c \<and>
      currentlyPlaying_status (getStatus (fst (playNext cfg starts s))) = Some (text_clip c, duration c) \<and>
      queuedClips (getStatus (fst (playNext cfg starts s))) = length rest \<and>
      totalBufferedSeconds (getStatus (fst (playNext cfg starts s)))
        = foldl (\<lambda>total c. total + duration c) 0 rest)"
  by (simp add: getStatus_def getTotalBufferedSeconds_def playNext.simps [of cfg starts s] Let_def)

theorem getStatus_while_playing_example:
  "isPlaying (activated\<lparr>queue := [S1, S2], isPlaying := True\<rparr>) \<and>
   \<not> isPaused (activated\<lparr>queue := [S1, S2], isPlaying := True\<rparr>) \<and>
   currentlyPlaying (fst (playNext config_timing always_starts
      (activated\<lparr>queue := [S1, S2], isPlaying := True\<rparr>))) = Some S1 \<and>
   queuedClips (getStatus (fst (playNext config_timing always_starts
      (activated\<lparr>queue := [S1, S2], isPlaying := True\<rparr>)))) = 1 \<and>
   totalBufferedSeconds (getStatus (fst (playNext config_timing always_starts
      (activated\<lparr>queue := [S1, S2], isPlaying := True\<rparr>)))) = 5"
  using getStatus_excludes_playing_clip
    [of "activated\<lparr>queue := [S1, S2], isPlaying := True\<rparr>" None S1 "[S2]" always_starts config_timing]
  by (simp add: activated_def new_AudioBufferManager_def S2_def always_starts_def)



subsection \<open>The order of clip notifications\<close>


lemma open_after_append:
  "open_after cur (xs @ ys) = open_after (open_after cur xs) ys"
  by (induction cur xs rule: open_after.induct) auto

lemma playNext_idle:
  assumes "\<forall>c. starts c" "sounding s = None" "timeouts s = 0" "\<not> isPaused s"
  shows "consumer_inv (fst (playNext cfg starts s)) \<and>
         clip_order None (snd (playNext cfg starts s)) \<and>
         open_after None (snd (playNext cfg starts s)) = sounding (fst (playNext cfg starts s))"
proof (cases "isPlaying s")
  case False
  with assms show ?thesis
    by (simp add: playNext.simps [of cfg starts s] consumer_inv_def)
next
  case True
  show ?thesis
  proof (cases "queue s")
    case Nil
    with True assms show ?thesis
      by (simp add: playNext.simps [of cfg starts s] consumer_inv_def sounding_def)
  next
    case (Cons c rest)
    with True assms show ?thesis
      by (simp add: playNext.simps [of cfg starts s] consumer_inv_def sounding_def Let_def
          notifyBufferUpdate_def)
  qed
qed


lemma idle_result:
  assumes "consumer_inv (fst r) \<and> clip_order None (snd r) \<and> open_after None (snd r) = sounding (fst r)"
    and "consumer_step cfg starts e s = r" and "sounding s = None"
  shows "consumer_step_ok cfg starts e s"
  using assms unfolding consumer_step_ok_def by simp

lemma unchanged_result:
  assumes "consumer_inv s" and "consumer_step cfg starts e s = (s, [])"
  shows "consumer_step_ok cfg starts e s"
  using assms unfolding consumer_step_ok_def by simp




lemma sounding_cong:
  "currentSource s' = currentSource s \<Longrightarrow> sounding s' = sounding s"
  by (simp add: sounding_def)

lemma consumer_inv_cong:
  "currentSource s' = currentSource s \<Longrightarrow> timeouts s' = timeouts s \<Longrightarrow>
   isPlaying s' = isPlaying s \<Longrightarrow> isPaused s' = isPaused s \<Longrightarrow>
   consumer_inv s' = consumer_inv s"
  by (simp add: consumer_inv_def sounding_def)



lemma play_ok:
  assumes starts: "\<forall>c. starts c" and inv: "consumer_inv s"
  shows "consumer_step_ok cfg starts (PlayCalled ctx_ok) s"
proof (cases "play cfg starts ctx_ok s")
  case (Inl err)
  then have "consumer_step cfg starts (PlayCalled ctx_ok) s = (s, [])" by simp
  with inv show ?thesis by (rule unchanged_result)
next
  case (Inr r)
  have step: "consumer_step cfg starts (PlayCalled ctx_ok) s = r"
    using Inr by simp
  define s1 where "s1 = (if isInitialized s then s else s\<lparr>gainNode := Some 1, isInitialized := True\<rparr>)"
  have init: "(if \<not> isInitialized s then initialize ctx_ok s else Inr s) = Inr s1"
    using Inr by (auto simp: play_def initialize_def s1_def split: if_splits)
  have same: "currentSource s1 = currentSource s" "timeouts s1 = timeouts s"
    "isPlaying s1 = isPlaying s" "isPaused s1 = isPaused s"
    by (simp_all add: s1_def)
  have play: "play cfg starts ctx_ok s =
     (if isPlaying s1 \<and> \<not> isPaused s1 then Inr (s1, [])
      else Inr (playNext cfg starts (s1\<lparr>isPlaying := True, isPaused := False\<rparr>)))"
    unfolding play_def init by simp
  show ?thesis
  proof (cases "isPlaying s1 \<and> \<not> isPaused s1")
    case True
    with play Inr have r: "r = (s1, [])" by simp
    show ?thesis
      unfolding consumer_step_ok_def step r
      using inv consumer_inv_cong [OF same] sounding_cong [OF same(1)] by simp
  next
    case False
    let ?s2 = "s1\<lparr>isPlaying := True, isPaused := False\<rparr>"
    from False have "play cfg starts ctx_ok s = Inr (playNext cfg starts ?s2)"
      unfolding play by (rule if_not_P)
    with Inr have r: "playNext cfg starts ?s2 = r" by simp
    from False inv same have idle: "sounding s = None" "timeouts s = 0"
      by (auto simp: consumer_inv_def)
    have "sounding ?s2 = None" "timeouts ?s2 = 0" "\<not> isPaused ?s2"
      using idle same sounding_cong [OF same(1)] by (simp_all add: sounding_def)
    from playNext_idle [OF starts this, of cfg] show ?thesis
      unfolding r using step idle(1) by (rule idle_result)
  qed
qed







section \<open>Properties of the application\<close>

text \<open>The definitions a concrete execution unfolds.\<close>

lemmas eval_defs = exec_def new_Mil4dy_def new_AudioBufferManager_def
  new_PoetryModule_def start_begin_def start_end_def initialize_def generateClip_call_def
  generateClip_catch_def settle_def deliver_def addToQueue_guard_def addToQueue_push_def
  notifyBufferUpdate_def getStatus_def getTotalBufferedSeconds_def trim.simps play_def
  playNext.simps Mil4dy_stop_def pause_def startGenerationLoop_def addToHistory_def
  nonblank_lines_def js_trim_def js_whitespace_def maxPreviousLines_def config_timing_def
  always_starts_def Let_def

subsection \<open>What the callbacks leave alone\<close>

lemma callback_frame:
  "poetry (callback h w) = poetry w"
  "audioBuffer (callback h w) = audioBuffer w"
  "isRunning (callback h w) = isRunning w"
  "generationLoop (callback h w) = generationLoop w"
  "camera_isInitialized (callback h w) = camera_isInitialized w"
  "clipsGenerated (callback h w) = clipsGenerated w"
  by (cases h; simp add: generateClip_call_def generateClip_catch_def Let_def)+

lemma callbacks_frame:
  "poetry (foldl (\<lambda>w' h. callback h w') w hs) = poetry w \<and>
   audioBuffer (foldl (\<lambda>w' h. callback h w') w hs) = audioBuffer w \<and>
   isRunning (foldl (\<lambda>w' h. callback h w') w hs) = isRunning w \<and>
   generationLoop (foldl (\<lambda>w' h. callback h w') w hs) = generationLoop w \<and>
   camera_isInitialized (foldl (\<lambda>w' h. callback h w') w hs) = camera_isInitialized w \<and>
   clipsGenerated (foldl (\<lambda>w' h. callback h w') w hs) = clipsGenerated w"
  by (induction hs arbitrary: w) (simp_all add: callback_frame)

lemma deliver_frame:
  "poetry (deliver r w) = poetry w"
  "audioBuffer (deliver r w) = fst r"
  "isRunning (deliver r w) = isRunning w"
  "generationLoop (deliver r w) = generationLoop w"
  "camera_isInitialized (deliver r w) = camera_isInitialized w"
  "clipsGenerated (deliver r w) = clipsGenerated w"
  by (simp_all add: deliver_def callbacks_frame)

lemma deliver_quiet:
  "snd r = [] \<or> (\<exists>st. snd r = [OnBufferUpdate st]) \<Longrightarrow> deliver r w = w\<lparr>audioBuffer := fst r\<rparr>"
  by (auto simp: deliver_def)

lemma pause_quiet:
  "snd (pause b) = [] \<or> (\<exists>st. snd (pause b) = [OnBufferUpdate st])"
  by (simp add: pause_def Let_def notifyBufferUpdate_def)


lemma Mil4dy_stop_eq:
  "Mil4dy_stop w = w\<lparr>isRunning := False, generationLoop := False, audioBuffer := fst (pause (audioBuffer w))\<rparr>"
  by (simp add: Mil4dy_stop_def Let_def deliver_quiet [OF pause_quiet])

lemma push_quiet:
  "snd (addToQueue_push cfg c b) = [] \<or> (\<exists>st. snd (addToQueue_push cfg c b) = [OnBufferUpdate st])"
  by (simp add: addToQueue_push_def Let_def notifyBufferUpdate_def)

lemma nonempty_addToHistory:
  "previousLines p \<noteq> [] \<Longrightarrow> previousLines (addToHistory poem p) \<noteq> []"
  by (auto simp: addToHistory_def Let_def maxPreviousLines_def)

lemma generateClip_call_frame:
  "poetry (generateClip_call w) = poetry w"
  "audioBuffer (generateClip_call w) = audioBuffer w"
  "isRunning (generateClip_call w) = isRunning w"
  by (simp_all add: generateClip_call_def generateClip_catch_def Let_def)

lemma generateClip_resume_frame:
  "isRunning (snd (generateClip_resume cfg x r w)) = isRunning w"
  "isInitialized (audioBuffer (snd (generateClip_resume cfg x r w))) = isInitialized (audioBuffer w)"
  "isPlaying (audioBuffer (snd (generateClip_resume cfg x r w))) = isPlaying (audioBuffer w)"
  "isPaused (audioBuffer (snd (generateClip_resume cfg x r w))) = isPaused (audioBuffer w)"
  by (induction cfg x r w rule: generateClip_resume.induct;
      simp add: generateClip_catch_def Let_def deliver_frame addToQueue_push_def
        split: sum.splits)+

lemma generateClip_resume_history:
  "previousLines (poetry w) \<noteq> [] \<Longrightarrow>
   previousLines (poetry (snd (generateClip_resume cfg x r w))) \<noteq> []"
  by (induction cfg x r w rule: generateClip_resume.induct;
      simp add: generateClip_catch_def Let_def deliver_frame nonempty_addToHistory
        split: sum.splits)

lemma settle_frame:
  "isRunning (settle cfg i x w) = isRunning w"
  "isInitialized (audioBuffer (settle cfg i x w)) = isInitialized (audioBuffer w)"
  "isPlaying (audioBuffer (settle cfg i x w)) = isPlaying (audioBuffer w)"
  "isPaused (audioBuffer (settle cfg i x w)) = isPaused (audioBuffer w)"
  using generateClip_resume_frame [of cfg x "runs w ! i" w]
  by (auto simp: settle_def split: prod.splits option.splits)

lemma settle_history:
  "previousLines (poetry w) \<noteq> [] \<Longrightarrow> previousLines (poetry (settle cfg i x w)) \<noteq> []"
  using generateClip_resume_history [of w cfg x "runs w ! i"]
  by (auto simp: settle_def split: prod.splits option.splits)

lemma settles_frame:
  "isRunning (foldl (\<lambda>w' x. settle cfg i x w') w xs) = isRunning w \<and>
   isInitialized (audioBuffer (foldl (\<lambda>w' x. settle cfg i x w') w xs)) = isInitialized (audioBuffer w) \<and>
   isPlaying (audioBuffer (foldl (\<lambda>w' x. settle cfg i x w') w xs)) = isPlaying (audioBuffer w) \<and>
   isPaused (audioBuffer (foldl (\<lambda>w' x. settle cfg i x w') w xs)) = isPaused (audioBuffer w)"
  by (induction xs arbitrary: w) (simp_all add: settle_frame)

lemma settles_history:
  "previousLines (poetry w) \<noteq> [] \<Longrightarrow>
   previousLines (poetry (foldl (\<lambda>w' x. settle cfg i x w') w xs)) \<noteq> []"
  by (induction xs arbitrary: w) (simp_all add: settle_history)

lemma generateClip_frame:
  "isRunning (generateClip cfg out w) = isRunning w"
  "isInitialized (audioBuffer (generateClip cfg out w)) = isInitialized (audioBuffer w)"
  "isPlaying (audioBuffer (generateClip cfg out w)) = isPlaying (audioBuffer w)"
  "isPaused (audioBuffer (generateClip cfg out w)) = isPaused (audioBuffer w)"
  by (simp_all add: generateClip_def settles_frame generateClip_call_frame)

lemma generateClip_history:
  "previousLines (poetry w) \<noteq> [] \<Longrightarrow> previousLines (poetry (generateClip cfg out w)) \<noteq> []"
  by (simp add: generateClip_def settles_history generateClip_call_frame)

lemma generateClip_no_scene:
  "vision_result out = None \<Longrightarrow> poetry (generateClip cfg out w) = poetry w"
  by (cases "isGenerating w"; cases "camera_isInitialized w")
     (simp_all add: generateClip_def generateClip_call_def settlements_def Let_def
        settle_def generateClip_catch_def)

lemma start_end_frame:
  "poetry (start_end cfg starts ctx_ok w) = poetry w"
  "isRunning (start_end cfg starts ctx_ok w) = isRunning w"
  "generationLoop (start_end cfg starts ctx_ok w)"
  by (simp_all add: start_end_def startGenerationLoop_def deliver_frame split: sum.splits)

lemma Mil4dy_stop_frame:
  "poetry (Mil4dy_stop w) = poetry w"
  by (simp add: Mil4dy_stop_eq)

lemmas eval_more = eval_defs start_def start_buffer_def generateClip_def settlements_def

subsection \<open>A run that aborts\<close>

text \<open>
  Claim C3, as the code has it. Take a call of \<^verbatim>\<open>generateClip()\<close> that passes
  the guard and is awaited to its end. If it aborts because the frame capture throws
  or the description or the composition rejects, the history of the poetry module and
  the whole playback buffer are as before, \<^verbatim>\<open>stats.errors\<close> is one higher, the
  flag is cleared and the call has returned (nothing is thrown on). If it aborts
  because the synthesis rejects, the same holds of the buffer, the counter and the
  return, but the history has by then received the lines of the composed poem:
  \<^verbatim>\<open>poetry.generate\<close> adds them before it returns.
\<close>

theorem aborted_run_effects:
  "\<not> isGenerating w \<Longrightarrow>
     ((\<not> camera_isInitialized w \<or> vision_result out = None \<or> poetry_result out = None) \<longrightarrow>
        poetry (generateClip cfg out w) = poetry w \<and>
        audioBuffer (generateClip cfg out w) = audioBuffer w \<and>
        errors (generateClip cfg out w) = errors w + 1 \<and>
        \<not> isGenerating (generateClip cfg out w) \<and>
        runs (generateClip cfg out w) = runs w) \<and>
     ((camera_isInitialized w \<and> vision_result out = Some description \<and>
       poetry_result out = Some content \<and> tts_result out = None) \<longrightarrow>
        poetry (generateClip cfg out w) = addToHistory (js_trim content) (poetry w) \<and>
        audioBuffer (generateClip cfg out w) = audioBuffer w \<and>
        errors (generateClip cfg out w) = errors w + 1 \<and>
        \<not> isGenerating (generateClip cfg out w) \<and>
        runs (generateClip cfg out w) = runs w)"
  apply (cases "vision_result out"; cases "poetry_result out"; cases "tts_result out";
      cases "camera_isInitialized w")
  apply (simp_all add: generateClip_def generateClip_call_def settlements_def Let_def
      settle_def generateClip_catch_def)
  done

theorem aborted_run_example:
  "\<not> isGenerating idle_world \<and> vision_result out_describe_fails = None \<and>
   poetry (generateClip config_timing out_describe_fails idle_world) = poetry idle_world \<and>
   audioBuffer (generateClip config_timing out_describe_fails idle_world) = audioBuffer idle_world \<and>
   errors (generateClip config_timing out_describe_fails idle_world) = 1 \<and>
   camera_isInitialized idle_world \<and> tts_result out_synthesize_fails = None \<and>
   audioBuffer (generateClip config_timing out_synthesize_fails idle_world) = audioBuffer idle_world \<and>
   errors (generateClip config_timing out_synthesize_fails idle_world) = 1"
  using aborted_run_effects [of idle_world out_describe_fails config_timing]
    aborted_run_effects [of idle_world out_synthesize_fails config_timing
      "''a desk by a window''" "''  soft light\<newline>on paper \<newline>\<newline>''"]
  by (simp add: idle_world_def new_Mil4dy_def out_describe_fails_def out_synthesize_fails_def
      out_ok_def)

text \<open>
  The claim as written fails for the synthesis error: with an empty history and a
  composed poem of two lines, the run aborts (the counter goes up) and leaves the two
  lines in the history.
\<close>

theorem synthesize_error_changes_history:
  "\<not> isGenerating idle_world \<and>
   tts_result out_synthesize_fails = None \<and>
   errors (generateClip config_timing out_synthesize_fails idle_world) = errors idle_world + 1 \<and>
   previousLines (poetry idle_world) = [] \<and>
   previousLines (poetry (generateClip config_timing out_synthesize_fails idle_world))
     = [''soft light'', ''on paper'']"
  by (simp add: generateClip_def generateClip_call_def settlements_def Let_def
      settle_def generateClip_catch_def idle_world_def new_Mil4dy_def out_synthesize_fails_def
      out_ok_def new_PoetryModule_def addToHistory_def nonblank_lines_def js_trim_def
      js_whitespace_def maxPreviousLines_def)



subsection \<open>A run in flight when the session stops\<close>






subsection \<open>The history at the start of a session\<close>

text \<open>
  Claim C8, as the code has it. \<^verbatim>\<open>start()\<close> does not reset the history of
  previous lines. The state in which the first \<^verbatim>\<open>generateClip()\<close> of the session
  is called has the poetry module as it was before \<^verbatim>\<open>start()\<close>; a history that
  was not empty before \<^verbatim>\<open>start()\<close> is not empty after it; when neither of the
  two buffering runs gets a scene description, the module is unchanged after
  \<^verbatim>\<open>start()\<close>. The history is emptied by \<^verbatim>\<open>clearHistory()\<close>, which
  \<^verbatim>\<open>start()\<close> does not call.
\<close>

theorem start_keeps_history:
  "(start_begin ctx_ok w = Inr w1 \<longrightarrow> poetry w1 = poetry w) \<and>
   (previousLines (poetry w) \<noteq> [] \<longrightarrow>
      previousLines (poetry (start cfg starts ctx_ok out1 out2 w)) \<noteq> []) \<and>
   (vision_result out1 = None \<and> vision_result out2 = None \<longrightarrow>
      poetry (start cfg starts ctx_ok out1 out2 w) = poetry w) \<and>
   previousLines (clearHistory (poetry w)) = []"
proof -
  have first: "poetry w1 = poetry w" if "start_begin ctx_ok w = Inr w1" for w1
    using that by (auto simp: start_begin_def Let_def split: sum.splits)
  have kept: "previousLines (poetry (start cfg starts ctx_ok out1 out2 w)) \<noteq> []"
    if "previousLines (poetry w) \<noteq> []"
  proof (cases "start_begin ctx_ok w")
    case (Inl e)
    with that show ?thesis by (simp add: start_def Mil4dy_stop_frame)
  next
    case (Inr w2)
    with that first [OF Inr] show ?thesis
      by (simp add: start_def start_end_frame start_buffer_def generateClip_history)
  qed
  have same: "poetry (start cfg starts ctx_ok out1 out2 w) = poetry w"
    if "vision_result out1 = None" "vision_result out2 = None"
  proof (cases "start_begin ctx_ok w")
    case (Inl e)
    then show ?thesis by (simp add: start_def Mil4dy_stop_frame)
  next
    case (Inr w2)
    with that first [OF Inr] show ?thesis
      by (simp add: start_def start_end_frame start_buffer_def generateClip_no_scene)
  qed
  from first kept same show ?thesis by (simp add: clearHistory_def)
qed

theorem start_keeps_history_example:
  "start_begin True second_session = Inr (second_session\<lparr>isRunning := True\<rparr>) \<and>
   poetry (second_session\<lparr>isRunning := True\<rparr>) = poetry second_session \<and>
   previousLines (poetry second_session) \<noteq> [] \<and>
   previousLines (poetry (start config_timing always_starts True out_describe_fails
      out_describe_fails second_session)) \<noteq> [] \<and>
   vision_result out_describe_fails = None \<and>
   poetry (start config_timing always_starts True out_describe_fails out_describe_fails
      second_session) = poetry second_session"
  using start_keeps_history [of True second_session "second_session\<lparr>isRunning := True\<rparr>"
      config_timing always_starts out_describe_fails out_describe_fails]
  by (simp add: eval_more second_session_def stop_in_flight_def out_ok_def
      out_describe_fails_def)

text \<open>
  The claim as written fails: a second session started on the state the first one left
  finds the three lines of the first session in the history, and its two runs add
  their lines behind them.
\<close>

theorem start_does_not_reset_history:
  "previousLines (poetry second_session) = [''soft light'', ''on paper'', ''warm glow''] \<and>
   start_begin True second_session = Inr (second_session\<lparr>isRunning := True\<rparr>) \<and>
   previousLines (poetry (second_session\<lparr>isRunning := True\<rparr>)) \<noteq> [] \<and>
   previousLines (poetry (start config_timing always_starts True out_ok out_ok second_session))
     = [''soft light'', ''on paper'', ''warm glow'', ''soft light'', ''on paper'',
        ''soft light'', ''on paper'']"
  by (simp add: eval_more second_session_def stop_in_flight_def out_ok_def
      out_describe_fails_def)


subsection \<open>Buffering at the start of a session\<close>

lemma playNext_flags:
  "isPlaying (fst (playNext cfg starts s)) = isPlaying s \<and>
   isPaused (fst (playNext cfg starts s)) = isPaused s"
proof (induction cfg starts s rule: playNext.induct)
  case (1 cfg starts s)
  show ?case
  proof (cases "\<not> isPlaying s \<or> isPaused s")
    case True
    then show ?thesis by (simp add: playNext.simps [of cfg starts s])
  next
    case playing: False
    show ?thesis
    proof (cases "queue s")
      case Nil
      with playing show ?thesis by (simp add: playNext.simps [of cfg starts s])
    next
      case (Cons c rest)
      show ?thesis
      proof (cases "starts c")
        case True
        with playing Cons show ?thesis
          by (simp add: playNext.simps [of cfg starts s] Let_def)
      next
        case False
        with playing Cons "1.IH" [OF playing refl Cons refl refl False]
        show ?thesis
          by (simp add: playNext.simps [of cfg starts s] Let_def)
      qed
    qed
  qed
qed

lemma play_initialized:
  "isInitialized s \<Longrightarrow>
   \<exists>r. play cfg starts ctx_ok s = Inr r \<and> isPlaying (fst r) \<and> \<not> isPaused (fst r)"
proof (cases "isPlaying s \<and> \<not> isPaused s")
  case True
  assume "isInitialized s"
  with True show ?thesis by (simp add: play_def)
next
  case False
  assume "isInitialized s"
  with False have "play cfg starts ctx_ok s
      = Inr (playNext cfg starts (s\<lparr>isPlaying := True, isPaused := False\<rparr>))"
    by (auto simp: play_def)
  moreover have "isPlaying (fst (playNext cfg starts (s\<lparr>isPlaying := True, isPaused := False\<rparr>)))"
    "\<not> isPaused (fst (playNext cfg starts (s\<lparr>isPlaying := True, isPaused := False\<rparr>)))"
    by (simp_all add: playNext_flags)
  ultimately show ?thesis by blast
qed

lemma start_begin_Inr:
  "start_begin ctx_ok w = Inr w1 \<Longrightarrow>
   isRunning w1 \<and> isInitialized (audioBuffer w1) \<and> isGenerating w1 = isGenerating w \<and>
   camera_isInitialized w1 = camera_isInitialized w \<and> queue (audioBuffer w1) = queue (audioBuffer w) \<and>
   errors w1 = errors w \<and> clipsGenerated w1 = clipsGenerated w"
  by (auto simp: start_begin_def initialize_def Let_def split: sum.splits if_splits)

lemma start_running:
  assumes "start_begin ctx_ok w = Inr w1"
  shows "isRunning (start cfg starts ctx_ok out1 out2 w) \<and>
         generationLoop (start cfg starts ctx_ok out1 out2 w) \<and>
         isPlaying (audioBuffer (start cfg starts ctx_ok out1 out2 w)) \<and>
         \<not> isPaused (audioBuffer (start cfg starts ctx_ok out1 out2 w))"
proof -
  let ?w2 = "start_buffer cfg out1 out2 w1"
  from start_begin_Inr [OF assms] have w2: "isRunning ?w2" "isInitialized (audioBuffer ?w2)"
    by (simp_all add: start_buffer_def generateClip_frame)
  from play_initialized [OF w2(2), of cfg starts ctx_ok]
  obtain r where r: "play cfg starts ctx_ok (audioBuffer ?w2) = Inr r"
    "isPlaying (fst r)" "\<not> isPaused (fst r)" by blast
  have "start cfg starts ctx_ok out1 out2 w = startGenerationLoop (deliver r ?w2)"
    using assms r(1) by (simp add: start_def start_end_def)
  with r w2 show ?thesis
    by (simp add: startGenerationLoop_def deliver_frame)
qed

lemma start_buffer_scenario:
  assumes w: "\<not> isGenerating w" "camera_isInitialized w" "isInitialized (audioBuffer w)"
      "queue (audioBuffer w) = []" "0 < maxBufferClips cfg"
    and out1: "vision_result out1 = Some d1" "poetry_result out1 = Some p1" "tts_result out1 = None"
    and out2: "vision_result out2 = Some d2" "poetry_result out2 = Some p2"
      "tts_result out2 = Some a2" "decode_result out2"
  shows "queue (audioBuffer (start_buffer cfg out1 out2 w)) =
           [\<lparr>text_clip = js_trim p2, duration = snd a2, blob = fst a2\<rparr>] \<and>
         errors (start_buffer cfg out1 out2 w) = errors w + 1 \<and>
         clipsGenerated (start_buffer cfg out1 out2 w) = clipsGenerated w + 1"
proof -
  let ?w1 = "generateClip cfg out1 w"
  have first: "audioBuffer ?w1 = audioBuffer w" "errors ?w1 = errors w + 1"
    "clipsGenerated ?w1 = clipsGenerated w"
    "\<not> isGenerating ?w1" "camera_isInitialized ?w1" "runs ?w1 = runs w"
    using w out1
    by (simp_all add: generateClip_def generateClip_call_def settlements_def Let_def
        settle_def generateClip_catch_def)
  have push: "deliver (addToQueue_push cfg c b) v = v\<lparr>audioBuffer := fst (addToQueue_push cfg c b)\<rparr>"
    for c b and v :: "'a world"
    by (rule deliver_quiet [OF push_quiet])
  have second: "queue (audioBuffer (generateClip cfg out2 ?w1)) =
           [\<lparr>text_clip = js_trim p2, duration = snd a2, blob = fst a2\<rparr>]"
      "errors (generateClip cfg out2 ?w1) = errors ?w1"
      "clipsGenerated (generateClip cfg out2 ?w1) = clipsGenerated ?w1 + 1"
    using w first out2
    by (simp_all add: generateClip_def generateClip_call_def settlements_def Let_def
        settle_def addToQueue_guard_def push queue_addToQueue_push)
  from first second show ?thesis
    by (simp add: start_buffer_def)
qed

text \<open>
  Claim C7. The buffering phase of \<^verbatim>\<open>start()\<close>, two awaited calls of
  \<^verbatim>\<open>generateClip()\<close>, is the loop of the specification with a target of 2
  segments and a bound of 2 attempts. When \<^verbatim>\<open>audioBuffer.initialize()\<close> has
  succeeded, \<^verbatim>\<open>start()\<close> goes on after the two attempts, whatever they
  produced: the session is running, the interval timer is set and playback is on. In
  particular, on an idle application with an empty queue, if the first attempt fails
  at the synthesis and the second succeeds, exactly one segment is buffered after the
  two attempts (and one error is counted).
\<close>

theorem start_buffers_in_two_attempts:
  "start_buffer cfg out1 out2 w1 = prime_until cfg 2 [out1, out2] 0 w1 \<and>
   (start_begin ctx_ok w = Inr w1 \<longrightarrow>
      start cfg starts ctx_ok out1 out2 w = start_end cfg starts ctx_ok (start_buffer cfg out1 out2 w1) \<and>
      isRunning (start cfg starts ctx_ok out1 out2 w) \<and>
      generationLoop (start cfg starts ctx_ok out1 out2 w) \<and>
      isPlaying (audioBuffer (start cfg starts ctx_ok out1 out2 w)) \<and>
      \<not> isPaused (audioBuffer (start cfg starts ctx_ok out1 out2 w))) \<and>
   (start_begin ctx_ok w = Inr w1 \<and> \<not> isGenerating w \<and> camera_isInitialized w \<and>
    queue (audioBuffer w) = [] \<and> 0 < maxBufferClips cfg \<and>
    vision_result out1 = Some d1 \<and> poetry_result out1 = Some p1 \<and> tts_result out1 = None \<and>
    vision_result out2 = Some d2 \<and> poetry_result out2 = Some p2 \<and>
    tts_result out2 = Some a2 \<and> decode_result out2 \<longrightarrow>
      length (queue (audioBuffer (start_buffer cfg out1 out2 w1))) = 1 \<and>
      clipsGenerated (start_buffer cfg out1 out2 w1) = clipsGenerated w + 1 \<and>
      errors (start_buffer cfg out1 out2 w1) = errors w + 1)"
proof -
  have spec: "start_buffer cfg out1 out2 w1 = prime_until cfg 2 [out1, out2] 0 w1"
    by (simp add: start_buffer_def Let_def)
  have run: "start cfg starts ctx_ok out1 out2 w
               = start_end cfg starts ctx_ok (start_buffer cfg out1 out2 w1)"
    if "start_begin ctx_ok w = Inr w1"
    using that by (simp add: start_def)
  have scen: "length (queue (audioBuffer (start_buffer cfg out1 out2 w1))) = 1 \<and>
      clipsGenerated (start_buffer cfg out1 out2 w1) = clipsGenerated w + 1 \<and>
      errors (start_buffer cfg out1 out2 w1) = errors w + 1"
    if "start_begin ctx_ok w = Inr w1" "\<not> isGenerating w" "camera_isInitialized w"
      "queue (audioBuffer w) = []" "0 < maxBufferClips cfg"
      "vision_result out1 = Some d1" "poetry_result out1 = Some p1" "tts_result out1 = None"
      "vision_result out2 = Some d2" "poetry_result out2 = Some p2"
      "tts_result out2 = Some a2" "decode_result out2"
    using start_buffer_scenario [of w1 cfg out1 d1 p1 out2 d2 p2 a2] start_begin_Inr [OF that(1)] that
    by simp
  from spec run start_running scen show ?thesis by blast
qed

theorem scenario_B:
  "start_begin True (new_Mil4dy True) = Inr (idle_world\<lparr>isRunning := True\<rparr>) \<and>
   tts_result out_synthesize_fails = None \<and>
   length (queue (audioBuffer (start_buffer config_timing out_synthesize_fails out_ok
      (idle_world\<lparr>isRunning := True\<rparr>)))) = 1 \<and>
   errors (start_buffer config_timing out_synthesize_fails out_ok
      (idle_world\<lparr>isRunning := True\<rparr>)) = 1 \<and>
   isRunning (start config_timing always_starts True out_synthesize_fails out_ok (new_Mil4dy True)) \<and>
   isPlaying (audioBuffer
     (start config_timing always_starts True out_synthesize_fails out_ok (new_Mil4dy True)))"
proof -
  let ?w = "new_Mil4dy True :: real world"
  let ?w1 = "idle_world\<lparr>isRunning := True\<rparr>"
  have entered: "start_begin True ?w = Inr ?w1"
    by (simp add: start_begin_def initialize_def idle_world_def activated_def new_Mil4dy_def
        new_AudioBufferManager_def)
  have fresh: "\<not> isGenerating ?w" "camera_isInitialized ?w" "queue (audioBuffer ?w) = []"
      "errors ?w = 0" "0 < maxBufferClips config_timing"
    by (simp_all add: new_Mil4dy_def new_AudioBufferManager_def config_timing_def)
  have first: "vision_result out_synthesize_fails = Some ''a desk by a window''"
      "poetry_result out_synthesize_fails = Some ''  soft light\<newline>on paper \<newline>\<newline>''"
      "tts_result out_synthesize_fails = None"
    by (simp_all add: out_synthesize_fails_def out_ok_def)
  have second: "vision_result out_ok = Some ''a desk by a window''"
      "poetry_result out_ok = Some ''  soft light\<newline>on paper \<newline>\<newline>''"
      "tts_result out_ok = Some (7, 3)" "decode_result out_ok"
    by (simp_all add: out_ok_def)
  note claim = start_buffers_in_two_attempts [of config_timing out_synthesize_fails out_ok
      ?w1 True ?w always_starts "''a desk by a window''"
      "''  soft light\<newline>on paper \<newline>\<newline>''" "''a desk by a window''"
      "''  soft light\<newline>on paper \<newline>\<newline>''" "(7, 3)"]
  from claim entered have running:
    "isRunning (start config_timing always_starts True out_synthesize_fails out_ok ?w)"
    "isPlaying (audioBuffer (start config_timing always_starts True out_synthesize_fails out_ok ?w))"
    by blast+
  from claim entered fresh first second have buffered:
    "length (queue (audioBuffer (start_buffer config_timing out_synthesize_fails out_ok ?w1))) = 1"
    "errors (start_buffer config_timing out_synthesize_fails out_ok ?w1) = errors ?w + 1"
    by blast+
  from entered first(3) running buffered fresh(4) show ?thesis
    by (simp only: simp_thms add_0 )
qed


subsection \<open>Single flight\<close>

lemma single_flight_generateClip_call:
  "single_flight w \<Longrightarrow> single_flight (generateClip_call w)"
  by (auto simp: single_flight_def generateClip_call_def generateClip_catch_def Let_def)

lemma single_flight_callback:
  "single_flight w \<Longrightarrow> single_flight (callback h w)"
  by (cases h) (simp_all add: single_flight_generateClip_call, simp add: single_flight_def)

lemma single_flight_callbacks:
  "single_flight w \<Longrightarrow> single_flight (foldl (\<lambda>w' h. callback h w') w hs)"
  by (induction hs arbitrary: w) (simp_all add: single_flight_callback)

lemma single_flight_audioBuffer:
  "single_flight (w\<lparr>audioBuffer := b\<rparr>) = single_flight w"
  by (simp add: single_flight_def)

lemma single_flight_deliver:
  "single_flight w \<Longrightarrow> single_flight (deliver r w)"
  by (simp add: deliver_def single_flight_callbacks single_flight_audioBuffer)

lemma generateClip_resume_flight:
  "(case generateClip_resume cfg x r w of
      (None, w') \<Rightarrow> \<not> isGenerating w' \<and> runs w' = runs w
    | (Some r', w') \<Rightarrow> isGenerating w' = isGenerating w \<and> runs w' = runs w)"
  by (induction cfg x r w rule: generateClip_resume.induct;
      simp add: generateClip_catch_def Let_def deliver_quiet [OF push_quiet]
        addToQueue_guard_def)

lemma single_flight_settle:
  assumes "single_flight w"
  shows "single_flight (settle cfg i x w)"
proof (cases "i < length (runs w)")
  case False
  with assms show ?thesis by (simp add: settle_def)
next
  case True
  with assms obtain r where r: "runs w = [r]" "i = 0" "isGenerating w"
    by (cases "runs w") (auto simp: single_flight_def)
  obtain ro w' where res: "generateClip_resume cfg x r w = (ro, w')"
    by (cases "generateClip_resume cfg x r w")
  show ?thesis
  proof (cases ro)
    case None
    with generateClip_resume_flight [where cfg = cfg and x = x and r = r and w = w] res r
    show ?thesis by (simp add: settle_def single_flight_def)
  next
    case (Some r')
    with generateClip_resume_flight [where cfg = cfg and x = x and r = r and w = w] res r
    show ?thesis by (simp add: settle_def single_flight_def)
  qed
qed

lemma single_flight_interval_callback:
  "single_flight w \<Longrightarrow> single_flight (interval_callback cfg w)"
  by (simp add: interval_callback_def Let_def single_flight_generateClip_call)

lemma single_flight_Mil4dy_stop:
  "single_flight w \<Longrightarrow> single_flight (Mil4dy_stop w)"
  by (simp add: Mil4dy_stop_eq single_flight_def)

lemma single_flight_start_begin:
  "single_flight w \<Longrightarrow> start_begin ctx_ok w = Inr w1 \<Longrightarrow> single_flight w1"
  by (auto simp: start_begin_def Let_def single_flight_def split: sum.splits)

lemma single_flight_start_end:
  "single_flight w \<Longrightarrow> single_flight (start_end cfg starts ctx_ok w)"
proof -
  assume w: "single_flight w"
  have loop: "single_flight (startGenerationLoop v)" if "single_flight v" for v :: "'a world"
    using that by (simp add: startGenerationLoop_def single_flight_def)
  show ?thesis
  proof (cases "play cfg starts ctx_ok (audioBuffer w)")
    case (Inl err)
    with w show ?thesis by (simp add: start_end_def loop)
  next
    case (Inr r)
    with single_flight_deliver [OF w, of r] show ?thesis
      by (simp add: start_end_def loop)
  qed
qed

lemma single_flight_step:
  assumes "single_flight w"
  shows "single_flight (step cfg starts e w)"
proof (cases e)
  case (Start_begin ctx_ok)
  show ?thesis
  proof (cases "start_begin ctx_ok w")
    case (Inl err)
    have "single_flight (w\<lparr>isRunning := True\<rparr>)"
      using assms by (simp add: single_flight_def)
    with Inl Start_begin show ?thesis
      by (simp add: single_flight_Mil4dy_stop)
  next
    case (Inr w1)
    with Start_begin single_flight_start_begin [OF assms Inr] show ?thesis by simp
  qed
qed (use assms in \<open>simp_all add: single_flight_generateClip_call single_flight_settle
      single_flight_interval_callback single_flight_deliver single_flight_Mil4dy_stop
      single_flight_start_end\<close>)

lemma single_flight_exec:
  "single_flight w \<Longrightarrow> single_flight (exec cfg starts evs w)"
  unfolding exec_def
  by (induction evs arbitrary: w) (simp_all add: single_flight_step)

text \<open>
  Claim C2. In every execution from a state in single flight (the fresh application is
  one), whatever the order and number of explicit calls, timer ticks, playback events
  with their low-buffer signals, settled promises and calls of \<^verbatim>\<open>stop()\<close> and
  \<^verbatim>\<open>start()\<close>, at most one call of \<^verbatim>\<open>generateClip\<close> is in progress at any
  time; and while one is, an explicit call of \<^verbatim>\<open>generateClip()\<close>, a tick of the
  timer and a low-buffer signal each leave the state as it is: no second run starts.
\<close>

theorem at_most_one_run:
  "single_flight w \<Longrightarrow>
     length (runs (exec cfg starts evs w)) \<le> 1 \<and>
     (runs (exec cfg starts evs w) \<noteq> [] \<longrightarrow>
        step cfg starts Call_generateClip (exec cfg starts evs w) = exec cfg starts evs w \<and>
        step cfg starts IntervalTick (exec cfg starts evs w) = exec cfg starts evs w \<and>
        callback OnBufferLow (exec cfg starts evs w) = exec cfg starts evs w)"
proof -
  assume "single_flight w"
  then have "single_flight (exec cfg starts evs w)"
    by (rule single_flight_exec)
  then show ?thesis
    by (simp add: single_flight_def generateClip_call_def interval_callback_def Let_def)
qed

theorem at_most_one_run_example:
  "single_flight (new_Mil4dy True :: real world) \<and>
   length (runs (exec config_timing always_starts many_triggers (new_Mil4dy True))) \<le> 1 \<and>
   runs (exec config_timing always_starts many_triggers (new_Mil4dy True)) = [AwaitPoetry] \<and>
   step config_timing always_starts Call_generateClip
       (exec config_timing always_starts many_triggers (new_Mil4dy True))
     = exec config_timing always_starts many_triggers (new_Mil4dy True)"
proof -
  have fresh: "single_flight (new_Mil4dy True :: real world)"
    by (simp add: single_flight_def new_Mil4dy_def)
  have now: "runs (exec config_timing always_starts many_triggers (new_Mil4dy True)) = [AwaitPoetry]"
    by (simp add: eval_defs many_triggers_def interval_callback_def)
  from at_most_one_run [OF fresh, of config_timing always_starts many_triggers] fresh now
  show ?thesis by simp
qed

end
